theory Spec2Isabelle
  imports Complex_Main "HOL-Library.Extended_Nat"
begin

section \<open>Values, exceptions and HTTP messages\<close>

text \<open>
  The client of \<^verbatim>\<open>connect.py\<close> works on decoded JSON. A decoded JSON value is a Python
  value: \<open>JNull\<close> is Python's \<^verbatim>\<open>None\<close>, an object is a \<^verbatim>\<open>dict\<close> (an association list
  in insertion order, looked up with \<open>map_of\<close>), an array is a \<^verbatim>\<open>list\<close>.
\<close>

datatype json =
    JNull
  | JBool bool
  | JInt int
  | JFloat real
  | JStr string
  | JArr "json list"
  | JObj "(string \<times> json) list"

text \<open>Python truthiness, as \<^verbatim>\<open>if x\<close>, \<^verbatim>\<open>while x\<close> and \<^verbatim>\<open>not x\<close> test it.\<close>

fun truthy :: "json \<Rightarrow> bool" where
  "truthy JNull = False"
| "truthy (JBool b) = b"
| "truthy (JInt n) = (n \<noteq> 0)"
| "truthy (JFloat x) = (x \<noteq> 0)"
| "truthy (JStr s) = (s \<noteq> [])"
| "truthy (JArr xs) = (xs \<noteq> [])"
| "truthy (JObj kvs) = (kvs \<noteq> [])"

text \<open>
  The small Python values that occur as a dictionary key in a \<^verbatim>\<open>KeyError\<close> and as the
  members of the set built in \<^verbatim>\<open>status_errors\<close>.
\<close>

datatype pyval = PInt int | PStr string | PNone

text \<open>
  The exceptions of the Python run that the client meets: \<open>RequestError\<close> is
  \<^verbatim>\<open>httpx.RequestError\<close> (no response was received), \<open>JSONDecodeError\<close> is raised by
  \<^verbatim>\<open>response.json()\<close>, the others are Python's built-in exceptions.
\<close>

datatype exc =
    RequestError
  | JSONDecodeError
  | KeyError pyval
  | IndexError
  | TypeError
  | AttributeError

text \<open>
  The \<^verbatim>\<open>detail\<close> argument of \<^verbatim>\<open>fastapi.HTTPException\<close>: a caught exception, the path
  of a URL, or the Python set literal of \<^verbatim>\<open>status_errors\<close>.
\<close>

datatype detail =
    DetailExc exc
  | DetailPath string
  | DetailSet "pyval set"

text \<open>
  What a call raises: the typed \<^verbatim>\<open>HTTPException(status_code, detail)\<close>, or any other
  exception, which the client did not translate.
\<close>

datatype error =
    HTTPException int detail
  | Raised exc

fun typed :: "error \<Rightarrow> bool" where
  "typed (HTTPException c d) = True"
| "typed (Raised e) = False"

text \<open>
  A request as \<^verbatim>\<open>httpx\<close> sends it: method, URL and the \<^verbatim>\<open>params\<close> dictionary. A
  response as the hooks and \<^verbatim>\<open>process_json\<close> read it: \<open>status_code\<close>, \<open>headers\<close>
  (names in lower case, \<^verbatim>\<open>httpx\<close> compares them without case), \<open>url\<close> and \<open>url_path\<close>
  (\<^verbatim>\<open>response.url\<close> and \<^verbatim>\<open>response.url.path\<close>), \<open>request_method\<close>
  (\<^verbatim>\<open>response.request.method\<close>) and \<open>json_body\<close>, the value of \<^verbatim>\<open>response.json()\<close>,
  \<open>None\<close> when that call raises \<^verbatim>\<open>JSONDecodeError\<close>.
\<close>

record Request =
  req_method :: string
  req_url :: string
  req_params :: "(string \<times> json) list"

record Response =
  status_code :: int
  headers :: "string \<rightharpoonup> string"
  url :: string
  url_path :: string
  request_method :: string
  json_body :: "json option"

text \<open>The transport either fails before any response or delivers one.\<close>

datatype reply = TransportFailure | Received Response

section \<open>The rate-limit tracker\<close>

text \<open>
  Modelled from the spec: the class \<^verbatim>\<open>RateLimit\<close> of the module \<^verbatim>\<open>rate_limit\<close>, which
  \<^verbatim>\<open>connect.py\<close> imports and which is not among the sources. The spec gives a state
  \<open>{remaining, resetAt}\<close> per key (endpoint template, HTTP method), a lookup that never
  fails and answers an unseen key with an unrestricted state (\<open>remaining = \<infinity>\<close>,
  \<open>resetAt = now\<close>), and an overwrite from the remaining-count and reset-timestamp
  headers of a response. How a URL is normalised to its endpoint template is not in the
  spec beyond one example, so the tracker carries that function as the field
  \<open>template_of\<close>. The header names are those of the remote API; a response that lacks
  one of them, or carries a value that is not a decimal number, leaves the state as it is
  (the spec only says that the overwrite never fails).
\<close>

record limit_state =
  remaining :: enat
  reset :: real

record RateLimit =
  template_of :: "string \<Rightarrow> string"
  limits :: "(string \<times> string) \<rightharpoonup> limit_state"

definition digit_of :: "char \<Rightarrow> nat option" where
  "digit_of c =
     (let n = (of_char c :: nat) in if 48 \<le> n \<and> n \<le> 57 then Some (n - 48) else None)"

fun parse_digits :: "nat \<Rightarrow> string \<Rightarrow> nat option" where
  "parse_digits acc [] = Some acc"
| "parse_digits acc (c # cs) =
     (case digit_of c of None \<Rightarrow> None | Some d \<Rightarrow> parse_digits (10 * acc + d) cs)"

definition parse_nat :: "string \<Rightarrow> nat option" where
  "parse_nat s = (if s = [] then None else parse_digits 0 s)"

definition limit_key :: "RateLimit \<Rightarrow> string \<Rightarrow> string \<Rightarrow> string \<times> string" where
  "limit_key rl u m = (template_of rl u, m)"

definition get_limit :: "RateLimit \<Rightarrow> real \<Rightarrow> string \<Rightarrow> string \<Rightarrow> limit_state" where
  "get_limit rl now u m =
     (case limits rl (limit_key rl u m) of
        None \<Rightarrow> \<lparr>remaining = \<infinity>, reset = now\<rparr>
      | Some s \<Rightarrow> s)"

definition read_limit_headers :: "(string \<rightharpoonup> string) \<Rightarrow> limit_state option" where
  "read_limit_headers hs =
     (case hs ''x-rate-limit-remaining'' of
        None \<Rightarrow> None
      | Some a \<Rightarrow>
          (case hs ''x-rate-limit-reset'' of
             None \<Rightarrow> None
           | Some b \<Rightarrow>
               (case parse_nat a of
                  None \<Rightarrow> None
                | Some n \<Rightarrow>
                    (case parse_nat b of
                       None \<Rightarrow> None
                     | Some t \<Rightarrow> Some \<lparr>remaining = enat n, reset = real t\<rparr>))))"

definition set_limit ::
  "RateLimit \<Rightarrow> string \<Rightarrow> (string \<rightharpoonup> string) \<Rightarrow> string \<Rightarrow> RateLimit" where
  "set_limit rl u hs m =
     (case read_limit_headers hs of
        None \<Rightarrow> rl
      | Some s \<Rightarrow> rl\<lparr>limits := (limits rl)(limit_key rl u m \<mapsto> s)\<rparr>)"

section \<open>The hooks of the client\<close>

text \<open>
  \<^verbatim>\<open>check_rate_limit\<close>, the request hook. Its only effect is the call of
  \<^verbatim>\<open>asyncio.sleep\<close>: the model returns the duration slept, \<open>None\<close> when the hook does not
  sleep. \<open>now\<close> is the value of \<^verbatim>\<open>time.time()\<close>; times are real numbers (the rounding
  of floating point is not modelled).
\<close>

definition check_rate_limit :: "RateLimit \<Rightarrow> real \<Rightarrow> Request \<Rightarrow> real option" where
  "check_rate_limit rl now request =
     (let limit = get_limit rl now (req_url request) (req_method request)
      in if remaining limit = 0
         then (let s_time = max (reset limit - now) 0 + 10 in Some s_time)
         else None)"

text \<open>\<^verbatim>\<open>set_rate_limit\<close>, the second response hook.\<close>

definition set_rate_limit :: "RateLimit \<Rightarrow> Response \<Rightarrow> RateLimit" where
  "set_rate_limit rl resp = set_limit rl (url resp) (headers resp) (request_method resp)"

text \<open>
  \<^verbatim>\<open>response.raise_for_status()\<close> of \<^verbatim>\<open>httpx\<close> raises \<^verbatim>\<open>HTTPStatusError\<close> unless
  \<^verbatim>\<open>response.is_success\<close>, which is a status code from 200 to 299.
\<close>

definition is_success :: "int \<Rightarrow> bool" where
  "is_success c \<longleftrightarrow> 200 \<le> c \<and> c \<le> 299"

definition header_value :: "Response \<Rightarrow> string \<Rightarrow> pyval" where
  "header_value response h = (case headers response h of None \<Rightarrow> PNone | Some v \<Rightarrow> PStr v)"

text \<open>\<^verbatim>\<open>status_errors\<close>, the first response hook.\<close>

definition status_errors :: "Response \<Rightarrow> error + unit" where
  "status_errors response =
     (if is_success (status_code response) then Inr ()
      else if status_code response = 429
      then Inl (HTTPException 429
                  (DetailSet {PInt (status_code response),
                              header_value response ''x-rate-limit-remaining''}))
      else Inl (HTTPException (status_code response) (DetailPath (url_path response))))"

section \<open>One exchange through the client\<close>

text \<open>
  The state of a \<^verbatim>\<open>ConnectTwitter\<close> object that the claims are about: its tracker, and
  two logs that make the effects observable, the requests handed to the transport and the
  durations slept, both in order.
\<close>

record ClientState =
  rate_limit :: RateLimit
  sent :: "Request list"
  slept :: "real list"

text \<open>
  The environment: the reply of the transport to the k-th request of the run and the
  value of \<^verbatim>\<open>time.time()\<close> when the request hook of the k-th request runs.
\<close>

record World =
  replies :: "nat \<Rightarrow> reply"
  clock :: "nat \<Rightarrow> real"

text \<open>
  \<^verbatim>\<open>httpx\<close> awaits the hooks of a list one after the other and lets an exception of a
  hook escape: the hooks after it do not run, and what the hooks before it did to the
  tracker stays. The result is the exception, if any, and the tracker.
\<close>

datatype response_hook = StatusErrors | SetRateLimit

fun run_hook :: "response_hook \<Rightarrow> RateLimit \<Rightarrow> Response \<Rightarrow> error option \<times> RateLimit" where
  "run_hook StatusErrors rl resp =
     (case status_errors resp of Inl e \<Rightarrow> (Some e, rl) | Inr u \<Rightarrow> (None, rl))"
| "run_hook SetRateLimit rl resp = (None, set_rate_limit rl resp)"

fun run_hooks :: "response_hook list \<Rightarrow> RateLimit \<Rightarrow> Response \<Rightarrow> error option \<times> RateLimit" where
  "run_hooks [] rl resp = (None, rl)"
| "run_hooks (h # hs) rl resp =
     (case run_hook h rl resp of
        (Some e, rl') \<Rightarrow> (Some e, rl')
      | (None, rl') \<Rightarrow> run_hooks hs rl' resp)"

text \<open>The list registered under \<^verbatim>\<open>'response'\<close> in \<^verbatim>\<open>__init__\<close>.\<close>

definition response_hooks :: "response_hook list" where
  "response_hooks = [StatusErrors, SetRateLimit]"

text \<open>
  \<^verbatim>\<open>self.client.get\<close>: the request hook, the transport, the response hooks.
\<close>

definition client_get :: "World \<Rightarrow> ClientState \<Rightarrow> Request \<Rightarrow> (error + Response) \<times> ClientState" where
  "client_get w st request =
     (let k = length (sent st);
          st1 = st\<lparr>slept := slept st @
                      (case check_rate_limit (rate_limit st) (clock w k) request of
                         None \<Rightarrow> [] | Some d \<Rightarrow> [d]),
                    sent := sent st @ [request]\<rparr>
      in case replies w k of
           TransportFailure \<Rightarrow> (Inl (Raised RequestError), st1)
         | Received resp \<Rightarrow>
             (case run_hooks response_hooks (rate_limit st1) resp of
                (Some e, rl) \<Rightarrow> (Inl e, st1\<lparr>rate_limit := rl\<rparr>)
              | (None, rl) \<Rightarrow> (Inr resp, st1\<lparr>rate_limit := rl\<rparr>)))"

section \<open>Decoding a page\<close>

text \<open>The Python operations on decoded JSON that the client uses.\<close>

text \<open>\<^verbatim>\<open>x.get(key, default)\<close>: only a \<^verbatim>\<open>dict\<close> has the method.\<close>

fun py_get :: "json \<Rightarrow> string \<Rightarrow> json \<Rightarrow> exc + json" where
  "py_get (JObj kvs) key dflt = (case map_of kvs key of None \<Rightarrow> Inr dflt | Some v \<Rightarrow> Inr v)"
| "py_get x key dflt = Inl AttributeError"

text \<open>\<^verbatim>\<open>x['key']\<close> with a string key.\<close>

fun subscript_str :: "json \<Rightarrow> string \<Rightarrow> exc + json" where
  "subscript_str (JObj kvs) key =
     (case map_of kvs key of None \<Rightarrow> Inl (KeyError (PStr key)) | Some v \<Rightarrow> Inr v)"
| "subscript_str x key = Inl TypeError"

text \<open>\<^verbatim>\<open>x[0]\<close>.\<close>

fun subscript_zero :: "json \<Rightarrow> exc + json" where
  "subscript_zero (JArr []) = Inl IndexError"
| "subscript_zero (JArr (x # xs)) = Inr x"
| "subscript_zero (JStr []) = Inl IndexError"
| "subscript_zero (JStr (c # cs)) = Inr (JStr [c])"
| "subscript_zero (JObj kvs) = Inl (KeyError (PInt 0))"
| "subscript_zero x = Inl TypeError"

text \<open>
  \<^verbatim>\<open>results.extend(x)\<close>: a list gives its elements, a string its characters, a
  dictionary its keys; nothing else can be iterated.
\<close>

fun list_extend :: "json list \<Rightarrow> json \<Rightarrow> exc + json list" where
  "list_extend results (JArr xs) = Inr (results @ xs)"
| "list_extend results (JStr s) = Inr (results @ map (\<lambda>c. JStr [c]) s)"
| "list_extend results (JObj kvs) = Inr (results @ map (\<lambda>kv. JStr (fst kv)) kvs)"
| "list_extend results x = Inl TypeError"

text \<open>
  The body of the \<^verbatim>\<open>try\<close> statement of \<^verbatim>\<open>process_json\<close>: it ends with the values of
  \<^verbatim>\<open>pagination\<close> and \<^verbatim>\<open>results\<close>, or with an exception.
\<close>

definition process_json_try :: "Response \<Rightarrow> exc + (json \<times> json)" where
  "process_json_try response =
     (case json_body response of
        None \<Rightarrow> Inl JSONDecodeError
      | Some results \<Rightarrow>
          (case py_get results ''meta'' (JObj []) of
             Inl e \<Rightarrow> Inl e
           | Inr meta \<Rightarrow>
               (case py_get meta ''next_token'' JNull of
                  Inl e \<Rightarrow> Inl e
                | Inr next_token \<Rightarrow>
                    Inr (if truthy next_token then next_token else JNull, results))))"

text \<open>
  \<^verbatim>\<open>process_json\<close>: the two handlers turn \<^verbatim>\<open>KeyError\<close> and \<^verbatim>\<open>JSONDecodeError\<close> of the
  \<^verbatim>\<open>try\<close> body into \<^verbatim>\<open>HTTPException\<close>; \<^verbatim>\<open>results['data']\<close> is evaluated in the
  \<^verbatim>\<open>return\<close> statement, after the \<^verbatim>\<open>try\<close> statement.
\<close>

definition process_json :: "Response \<Rightarrow> error + (json \<times> json)" where
  "process_json response =
     (case process_json_try response of
        Inl (KeyError k) \<Rightarrow> Inl (HTTPException (status_code response) (DetailExc (KeyError k)))
      | Inl JSONDecodeError \<Rightarrow>
          Inl (HTTPException (status_code response) (DetailExc JSONDecodeError))
      | Inl e \<Rightarrow> Inl (Raised e)
      | Inr (pagination, results) \<Rightarrow>
          (case subscript_str results ''data'' of
             Inl e \<Rightarrow> Inl (Raised e)
           | Inr d \<Rightarrow> Inr (pagination, d)))"

section \<open>The pagination driver\<close>

text \<open>
  The step that \<^verbatim>\<open>get_id\<close> and \<^verbatim>\<open>get_data\<close> repeat: \<^verbatim>\<open>self.client.get\<close> inside
  \<^verbatim>\<open>try\<close>, with \<^verbatim>\<open>RequestError\<close> turned into \<^verbatim>\<open>HTTPException(503)\<close>, then
  \<^verbatim>\<open>process_json\<close>.
\<close>

definition get_page ::
  "World \<Rightarrow> ClientState \<Rightarrow> Request \<Rightarrow> (error + (json \<times> json)) \<times> ClientState" where
  "get_page w st request =
     (case client_get w st request of
        (Inl (Raised RequestError), st') \<Rightarrow>
          (Inl (HTTPException 503 (DetailExc RequestError)), st')
      | (Inl e, st') \<Rightarrow> (Inl e, st')
      | (Inr resp, st') \<Rightarrow> (process_json resp, st'))"

definition GET :: "string \<Rightarrow> (string \<times> json) list \<Rightarrow> Request" where
  "GET u ps = \<lparr>req_method = ''GET'', req_url = u, req_params = ps\<rparr>"

text \<open>
  The \<^verbatim>\<open>while paginate\<close> loop of \<^verbatim>\<open>get_data\<close>. Nothing bounds the number of pages, so
  the loop is a partial function: \<open>None\<close> is a run that never returns.
\<close>

partial_function (option) get_data_loop ::
  "World \<Rightarrow> string \<Rightarrow> json \<Rightarrow> json list \<Rightarrow> ClientState
     \<Rightarrow> ((error + json) \<times> ClientState) option" where
  "get_data_loop w u paginate results st =
     (if truthy paginate
      then (case get_page w st (GET u [(''pagination_token'', paginate)]) of
              (Inl e, st') \<Rightarrow> Some (Inl e, st')
            | (Inr (paginate', result), st') \<Rightarrow>
                (case list_extend results result of
                   Inl x \<Rightarrow> Some (Inl (Raised x), st')
                 | Inr results' \<Rightarrow> get_data_loop w u paginate' results' st'))
      else Some (Inr (JArr results), st))"

text \<open>\<^verbatim>\<open>get_data\<close>. The argument \<open>item_id\<close> is not used in the body.\<close>

definition get_data ::
  "World \<Rightarrow> ClientState \<Rightarrow> int \<Rightarrow> string \<Rightarrow> ((error + json) \<times> ClientState) option" where
  "get_data w st item_id u =
     (case get_page w st (GET u []) of
        (Inl e, st') \<Rightarrow> Some (Inl e, st')
      | (Inr (paginate, result), st') \<Rightarrow>
          if \<not> truthy paginate then Some (Inr result, st')
          else (case list_extend [] result of
                  Inl x \<Rightarrow> Some (Inl (Raised x), st')
                | Inr results \<Rightarrow> get_data_loop w u paginate results st'))"

section \<open>The id lookup and its cache\<close>

definition api :: string where
  "api = ''https://api.twitter.com/2''"

text \<open>\<^verbatim>\<open>"/users/by?usernames={}&{}".format(user, fields)\<close>, the argument \<^verbatim>\<open>fields\<close> being \<open>user_fields\<close> here.\<close>

definition url_id :: "string \<Rightarrow> string \<Rightarrow> string" where
  "url_id user user_fields = ''/users/by?usernames='' @ user @ ''&'' @ user_fields"

text \<open>The body of \<^verbatim>\<open>get_id\<close>, without the decorator.\<close>

definition get_id_body ::
  "World \<Rightarrow> ClientState \<Rightarrow> string \<Rightarrow> string \<Rightarrow> (error + json) \<times> ClientState" where
  "get_id_body w st user user_fields =
     (case get_page w st (GET (api @ url_id user user_fields) []) of
        (Inl e, st') \<Rightarrow> (Inl e, st')
      | (Inr (p, result), st') \<Rightarrow>
          (case subscript_zero result of
             Inl x \<Rightarrow> (Inl (Raised x), st')
           | Inr first \<Rightarrow>
               (case subscript_str first ''id'' of
                  Inl x \<Rightarrow> (Inl (Raised x), st')
                | Inr v \<Rightarrow> (Inr v, st'))))"

text \<open>
  A call of \<^verbatim>\<open>get_id\<close> as the caller writes it: the positional arguments after
  \<^verbatim>\<open>self\<close> and the keyword arguments in the order written. \<^verbatim>\<open>get_id("bob")\<close> is
  \<open>\<lparr>pos_args = [''bob''], kw_args = []\<rparr>\<close> and \<^verbatim>\<open>get_id(user="bob")\<close> is
  \<open>\<lparr>pos_args = [], kw_args = [(''user'', ''bob'')]\<rparr>\<close>.
\<close>

record id_call =
  pos_args :: "string list"
  kw_args :: "(string \<times> string) list"

text \<open>
  Python's binding of the arguments of a call to the parameters
  \<^verbatim>\<open>user: str = ""\<close> and \<^verbatim>\<open>fields: str = "user.fields=id"\<close>: the values of \<^verbatim>\<open>user\<close> and
  \<^verbatim>\<open>fields\<close>, or \<^verbatim>\<open>TypeError\<close> for too many positional arguments, an unknown keyword
  or a parameter given twice (a call cannot repeat a keyword).
\<close>

definition bind_args :: "id_call \<Rightarrow> exc + (string \<times> string)" where
  "bind_args c =
     (let ps = pos_args c; ks = kw_args c
      in if 2 < length ps then Inl TypeError
         else if \<not> distinct (map fst ks) then Inl TypeError
         else if list_ex (\<lambda>k. k \<noteq> ''user'' \<and> k \<noteq> ''fields'') (map fst ks)
         then Inl TypeError
         else if 1 \<le> length ps \<and> map_of ks ''user'' \<noteq> None then Inl TypeError
         else if 2 \<le> length ps \<and> map_of ks ''fields'' \<noteq> None then Inl TypeError
         else Inr (if 1 \<le> length ps then ps ! 0
                   else (case map_of ks ''user'' of None \<Rightarrow> '''' | Some x \<Rightarrow> x),
                   if 2 \<le> length ps then ps ! 1
                   else (case map_of ks ''fields'' of
                           None \<Rightarrow> ''user.fields=id''
                         | Some x \<Rightarrow> x)))"

text \<open>
  \<^verbatim>\<open>@alru_cache(maxsize=32)\<close> of the library \<^verbatim>\<open>async_lru\<close> (version 2), for calls one
  after the other on one client. The key of a call is made from the arguments as they
  are passed, positional ones and keyword ones apart, before any binding: two calls that
  give the parameters the same values in another form have different keys. The table
  holds the entries most recently used first. A hit answers from the table and makes the
  entry the most recently used. A miss calls the function (a \<^verbatim>\<open>TypeError\<close> of the
  binding leaves the table as it is), enters the key and drops the least recently used
  entry when the table has more than 32; when the body has returned the entry holds the
  value, and when the body has raised the entry is taken out again.
\<close>

type_synonym call_key = "string list \<times> (string \<times> string) list"

type_synonym id_cache = "(call_key \<times> json) list"

definition call_key :: "id_call \<Rightarrow> call_key" where
  "call_key c = (pos_args c, kw_args c)"

definition maxsize :: nat where
  "maxsize = 32"

definition get_id ::
  "World \<Rightarrow> ClientState \<Rightarrow> id_cache \<Rightarrow> id_call
     \<Rightarrow> ((error + json) \<times> ClientState) \<times> id_cache" where
  "get_id w st cache c =
     (case map_of cache (call_key c) of
        Some v \<Rightarrow>
          ((Inr v, st), (call_key c, v) # filter (\<lambda>kv. fst kv \<noteq> call_key c) cache)
      | None \<Rightarrow>
          (case bind_args c of
             Inl x \<Rightarrow> ((Inl (Raised x), st), cache)
           | Inr (user, user_fields) \<Rightarrow>
               (case get_id_body w st user user_fields of
                  (Inl e, st') \<Rightarrow> ((Inl e, st'), take (maxsize - 1) cache)
                | (Inr v, st') \<Rightarrow> ((Inr v, st'), take maxsize ((call_key c, v) # cache)))))"

text \<open>Calls of \<^verbatim>\<open>get_id\<close> one after the other; the state and the table after the last.\<close>

fun get_id_calls ::
  "World \<Rightarrow> ClientState \<Rightarrow> id_cache \<Rightarrow> id_call list \<Rightarrow> ClientState \<times> id_cache" where
  "get_id_calls w st cache [] = (st, cache)"
| "get_id_calls w st cache (c # cs) =
     (case get_id w st cache c of ((r, st'), cache') \<Rightarrow> get_id_calls w st' cache' cs)"

section \<open>The identity records\<close>

text \<open>
  \<^verbatim>\<open>TwitterUser\<close> and \<^verbatim>\<open>TwitterList\<close>. The field \<^verbatim>\<open>id\<close> is \<open>user_id\<close> and \<open>list_id\<close>
  here. In both \<^verbatim>\<open>__hash__\<close> methods the name \<^verbatim>\<open>id\<close> is not \<^verbatim>\<open>self.id\<close>: it is Python's
  built-in function \<^verbatim>\<open>id\<close>, and the hash of that function object is a number fixed for
  the run of the interpreter, the parameter \<open>hash_of_builtin_id\<close>.
\<close>

record TwitterUser =
  username :: string
  user_id :: int
  name :: string

record TwitterList =
  list_name :: string
  list_id :: int

definition TwitterUser_hash :: "int \<Rightarrow> TwitterUser \<Rightarrow> int" where
  "TwitterUser_hash hash_of_builtin_id self = hash_of_builtin_id"

definition TwitterList_hash :: "int \<Rightarrow> TwitterList \<Rightarrow> int" where
  "TwitterList_hash hash_of_builtin_id self = hash_of_builtin_id"

text \<open>
  Python's \<^verbatim>\<open>hash\<close> of an \<^verbatim>\<open>int\<close> on a 64-bit build: the number reduced modulo
  \<open>2^61 - 1\<close> with its sign kept, and \<open>-2\<close> in place of \<open>-1\<close>.
\<close>

definition py_hash_int :: "int \<Rightarrow> int" where
  "py_hash_int n =
     (let h = (if n < 0 then - ((- n) mod (2 ^ 61 - 1)) else n mod (2 ^ 61 - 1))
      in if h = - 1 then - 2 else h)"

section \<open>Pages as the specification describes them\<close>

text \<open>
  The response envelope in the spec's words: a response with a 2xx status whose JSON body
  is an object with a top-level \<^verbatim>\<open>data\<close> array and an optional \<^verbatim>\<open>meta.next_token\<close>
  string. \<open>carries_page r items tok\<close> says that the response \<open>r\<close> is such a page with
  the records \<open>items\<close> and the continuation token \<open>tok\<close> (\<open>None\<close>: the page has no
  \<^verbatim>\<open>meta\<close>, or its \<^verbatim>\<open>meta\<close> has no \<^verbatim>\<open>next_token\<close>).
\<close>

definition carries_page :: "Response \<Rightarrow> json list \<Rightarrow> string option \<Rightarrow> bool" where
  "carries_page r items tok \<longleftrightarrow>
     is_success (status_code r) \<and>
     (case json_body r of
        Some (JObj kvs) \<Rightarrow>
          map_of kvs ''data'' = Some (JArr items) \<and>
          (case tok of
             Some t \<Rightarrow>
               (case map_of kvs ''meta'' of
                  Some (JObj m) \<Rightarrow> map_of m ''next_token'' = Some (JStr t)
                | _ \<Rightarrow> False)
           | None \<Rightarrow>
               (case map_of kvs ''meta'' of
                  None \<Rightarrow> True
                | Some (JObj m) \<Rightarrow> map_of m ''next_token'' = None
                | _ \<Rightarrow> False))
      | _ \<Rightarrow> False)"

text \<open>
  \<open>serves w i ps\<close>: from its \<open>i\<close>-th reply on, the transport delivers the pages \<open>ps\<close>,
  one per request, in this order.
\<close>

fun serves :: "World \<Rightarrow> nat \<Rightarrow> (json list \<times> string option) list \<Rightarrow> bool" where
  "serves w i [] = True"
| "serves w i (p # ps) =
     ((case replies w i of
         Received r \<Rightarrow> carries_page r (fst p) (snd p)
       | TransportFailure \<Rightarrow> False)
      \<and> serves w (Suc i) ps)"

text \<open>The Python value of the variable \<^verbatim>\<open>pagination\<close> for a page with token \<open>tok\<close>.\<close>

definition token_value :: "string option \<Rightarrow> json" where
  "token_value tok = (case tok of None \<Rightarrow> JNull | Some t \<Rightarrow> JStr t)"

section \<open>Concrete inputs\<close>

text \<open>
  A transport that answers the requests of a run with the replies of a list and fails
  after them, under a clock that stands still; a client just constructed, whose tracker
  takes the URL itself as the endpoint template.
\<close>

definition scripted :: "reply list \<Rightarrow> World" where
  "scripted rs =
     \<lparr>replies = (\<lambda>k. if k < length rs then rs ! k else TransportFailure),
      clock = (\<lambda>k. 0)\<rparr>"

definition new_tracker :: RateLimit where
  "new_tracker = \<lparr>template_of = (\<lambda>u. u), limits = Map.empty\<rparr>"

definition new_client :: ClientState where
  "new_client = \<lparr>rate_limit = new_tracker, sent = [], slept = []\<rparr>"

definition followers_url :: string where
  "followers_url = ''https://api.twitter.com/2/users/7/followers''"

text \<open>A response to a GET of \<open>followers_url\<close> with the given status, headers and body.\<close>

definition response_of :: "int \<Rightarrow> (string \<times> string) list \<Rightarrow> json option \<Rightarrow> Response" where
  "response_of c hs b =
     \<lparr>status_code = c, headers = map_of hs, url = followers_url,
      url_path = ''/2/users/7/followers'', request_method = ''GET'', json_body = b\<rparr>"

text \<open>A well-formed page: status 200, the records, and the token if there is one.\<close>

definition page_response :: "json list \<Rightarrow> string option \<Rightarrow> Response" where
  "page_response items tok =
     response_of 200 []
       (Some (JObj [(''data'', JArr items),
                    (''meta'', JObj (case tok of
                                       None \<Rightarrow> []
                                     | Some t \<Rightarrow> [(''next_token'', JStr t)]))]))"

text \<open>
  A quota-exceeded response whose headers say that no call remains until the reset time.
\<close>

definition quota_response :: Response where
  "quota_response =
     response_of 429
       [(''x-rate-limit-remaining'', ''0''), (''x-rate-limit-reset'', ''1700000000'')]
       None"

text \<open>A tracker that has recorded, for \<open>followers_url\<close>, \<open>n\<close> remaining calls and the reset time 100.\<close>

definition tracker_with :: "enat \<Rightarrow> RateLimit" where
  "tracker_with n =
     new_tracker\<lparr>limits := [(followers_url, ''GET'') \<mapsto> \<lparr>remaining = n, reset = 100\<rparr>]\<rparr>"

text \<open>A response to the id lookup with one user record.\<close>

definition id_response :: Response where
  "id_response =
     page_response
       [JObj [(''id'', JStr ''2244994945''), (''username'', JStr ''TwitterDev'')]] None"

text \<open>A response with status 200 whose body decodes to an object without \<^verbatim>\<open>data\<close>.\<close>

definition no_data_response :: Response where
  "no_data_response =
     response_of 200 [] (Some (JObj [(''meta'', JObj [(''result_count'', JInt 0)])]))"

text \<open>
  The run of the spec's example: three pages, the first with token \<open>a\<close>, the second with
  token \<open>b\<close>, the third without a token.
\<close>

definition three_pages :: World where
  "three_pages =
     scripted [Received (page_response [JInt 1, JInt 2] (Some ''a'')),
               Received (page_response [JInt 3] (Some ''b'')),
               Received (page_response [JInt 4, JInt 5] None)]"

text \<open>A run whose first page has a token and whose second page has no \<^verbatim>\<open>data\<close>.\<close>

definition broken_second_page :: World where
  "broken_second_page =
     scripted [Received (page_response [JInt 1, JInt 2] (Some ''a'')),
               Received no_data_response]"

text \<open>
  Three calls of the id lookup: \<^verbatim>\<open>get_id("TwitterDev")\<close>, \<^verbatim>\<open>get_id(user="TwitterDev")\<close>
  and \<^verbatim>\<open>get_id("TwitterAPI")\<close>, and the request that the first two lead to.
\<close>

definition call_positional :: id_call where
  "call_positional = \<lparr>pos_args = [''TwitterDev''], kw_args = []\<rparr>"

definition call_keyword :: id_call where
  "call_keyword = \<lparr>pos_args = [], kw_args = [(''user'', ''TwitterDev'')]\<rparr>"

definition call_other :: id_call where
  "call_other = \<lparr>pos_args = [''TwitterAPI''], kw_args = []\<rparr>"

definition id_request :: Request where
  "id_request = GET (api @ url_id ''TwitterDev'' ''user.fields=id'') []"

text \<open>A transport that answers two requests with the user record.\<close>

definition two_id_responses :: World where
  "two_id_responses = scripted [Received id_response, Received id_response]"

text \<open>A transport that fails on the first request and answers the second.\<close>

definition failure_then_id :: World where
  "failure_then_id = scripted [TransportFailure, Received id_response]"

text \<open>
  \<open>page_ok rp\<close>: the reply is a response with a 2xx status that \<^verbatim>\<open>process_json\<close>
  decodes without an exception.
\<close>

definition page_ok :: "reply \<Rightarrow> bool" where
  "page_ok rp =
     (case rp of
        TransportFailure \<Rightarrow> False
      | Received r \<Rightarrow>
          is_success (status_code r)
          \<and> (case process_json r of Inl e \<Rightarrow> False | Inr x \<Rightarrow> True))"

section \<open>The response hooks\<close>

lemma run_hooks_response_hooks:
  "run_hooks response_hooks rl resp =
     (case status_errors resp of
        Inl e \<Rightarrow> (Some e, rl)
      | Inr u \<Rightarrow> (None, set_rate_limit rl resp))"
  by (simp add: response_hooks_def split: sum.splits)

lemma status_errors_success: "is_success (status_code resp) \<Longrightarrow> status_errors resp = Inr ()"
  by (simp add: status_errors_def)

lemma status_errors_failure:
  "\<not> is_success (status_code resp) \<Longrightarrow> \<exists>c d. status_errors resp = Inl (HTTPException c d)"
  by (simp add: status_errors_def)

text \<open>
  Claim C4. The status check raises nothing on a 2xx response; on status 429, whatever the
  body, it raises \<^verbatim>\<open>HTTPException(429)\<close> whose detail is the set of the status code and
  the value of the header \<^verbatim>\<open>x-rate-limit-remaining\<close> (\<^verbatim>\<open>None\<close> when the header is
  absent); on any other status it raises \<^verbatim>\<open>HTTPException\<close> with that status and the
  path of the URL as detail.
\<close>

theorem status_errors_cases:
  "(status_code r = 429 \<longrightarrow>
      status_errors r =
        Inl (HTTPException 429
               (DetailSet {PInt 429,
                           (case headers r ''x-rate-limit-remaining'' of
                              None \<Rightarrow> PNone
                            | Some v \<Rightarrow> PStr v)})))
   \<and> (status_code r \<noteq> 429 \<and> \<not> is_success (status_code r) \<longrightarrow>
        status_errors r = Inl (HTTPException (status_code r) (DetailPath (url_path r))))
   \<and> (is_success (status_code r) \<longrightarrow> status_errors r = Inr ())"
  by (simp add: status_errors_def header_value_def is_success_def)

text \<open>
  Claim C4 at the statuses 429 (with a body and the header, and without both), 404, 301
  and 200.
\<close>

theorem status_errors_cases_witness:
  "status_errors (response_of 429 [(''x-rate-limit-remaining'', ''0'')]
                    (Some (JObj [(''data'', JArr [])])))
     = Inl (HTTPException 429 (DetailSet {PInt 429, PStr ''0''}))
   \<and> status_errors (response_of 429 [] None)
       = Inl (HTTPException 429 (DetailSet {PInt 429, PNone}))
   \<and> status_errors (response_of 404 [] None)
       = Inl (HTTPException 404 (DetailPath ''/2/users/7/followers''))
   \<and> status_errors (response_of 301 [] None)
       = Inl (HTTPException 301 (DetailPath ''/2/users/7/followers''))
   \<and> status_errors (response_of 200 [] None) = Inr ()"
  using
    status_errors_cases [of "response_of 429 [(''x-rate-limit-remaining'', ''0'')]
                               (Some (JObj [(''data'', JArr [])]))"]
    status_errors_cases [of "response_of 429 [] None"]
    status_errors_cases [of "response_of 404 [] None"]
    status_errors_cases [of "response_of 301 [] None"]
    status_errors_cases [of "response_of 200 [] None"]
  by (simp add: response_of_def is_success_def)

section \<open>The request hook\<close>

lemma slept_client_get:
  "slept (snd (client_get w st request)) =
     slept st @
       (case check_rate_limit (rate_limit st) (clock w (length (sent st))) request of
          None \<Rightarrow> []
        | Some d \<Rightarrow> [d])"
  by (simp add: client_get_def Let_def split: reply.splits prod.splits option.splits)

text \<open>
  Claim C5. The request hook sleeps exactly when the state tracked for the request has
  \<open>remaining = 0\<close>, and then for \<open>max (reset - now) 0 + 10\<close>; with \<open>remaining > 0\<close> it does
  not sleep. The same holds for the sleeps of a whole exchange through the client, where
  \<open>now\<close> is the clock at that request.
\<close>

theorem check_rate_limit_delay:
  "(remaining (get_limit rl now (req_url request) (req_method request)) = 0 \<longrightarrow>
      check_rate_limit rl now request =
        Some (max (reset (get_limit rl now (req_url request) (req_method request)) - now) 0
              + 10))
   \<and> (0 < remaining (get_limit rl now (req_url request) (req_method request)) \<longrightarrow>
        check_rate_limit rl now request = None)
   \<and> (remaining (get_limit (rate_limit st) (clock w (length (sent st)))
                    (req_url request) (req_method request)) = 0 \<longrightarrow>
        slept (snd (client_get w st request)) =
          slept st @
            [max (reset (get_limit (rate_limit st) (clock w (length (sent st)))
                           (req_url request) (req_method request))
                  - clock w (length (sent st))) 0 + 10])
   \<and> (0 < remaining (get_limit (rate_limit st) (clock w (length (sent st)))
                        (req_url request) (req_method request)) \<longrightarrow>
        slept (snd (client_get w st request)) = slept st)"
  by (auto simp: slept_client_get check_rate_limit_def Let_def)

text \<open>
  Claim C5 with no call remaining and the reset 60 time units ahead, with no call
  remaining and the reset in the past, with three calls remaining, for a key never seen,
  and for two exchanges of a client whose clock shows 0.
\<close>

theorem check_rate_limit_delay_witness:
  "check_rate_limit (tracker_with 0) 40 (GET followers_url []) = Some 70
   \<and> check_rate_limit (tracker_with 0) 500 (GET followers_url []) = Some 10
   \<and> check_rate_limit (tracker_with 3) 40 (GET followers_url []) = None
   \<and> check_rate_limit new_tracker 40 (GET followers_url []) = None
   \<and> slept (snd (client_get (scripted []) (new_client\<lparr>rate_limit := tracker_with 0\<rparr>)
                    (GET followers_url []))) = [110]
   \<and> slept (snd (client_get (scripted []) (new_client\<lparr>rate_limit := tracker_with 3\<rparr>)
                    (GET followers_url []))) = []"
  using
    check_rate_limit_delay [of "tracker_with 0" 40 "GET followers_url []"
      "new_client\<lparr>rate_limit := tracker_with 0\<rparr>" "scripted []"]
    check_rate_limit_delay [of "tracker_with 0" 500 "GET followers_url []"
      "new_client\<lparr>rate_limit := tracker_with 3\<rparr>" "scripted []"]
    check_rate_limit_delay [of "tracker_with 3" 40 "GET followers_url []"]
    check_rate_limit_delay [of new_tracker 40 "GET followers_url []"]
  by (simp add: tracker_with_def new_tracker_def new_client_def scripted_def GET_def
        get_limit_def limit_key_def)

section \<open>The tracker after a response\<close>

lemma client_get_received:
  assumes "replies w (length (sent st)) = Received resp"
  shows "fst (client_get w st request) =
           (case status_errors resp of Inl e \<Rightarrow> Inl e | Inr u \<Rightarrow> Inr resp)
         \<and> rate_limit (snd (client_get w st request)) =
             (case status_errors resp of
                Inl e \<Rightarrow> rate_limit st
              | Inr u \<Rightarrow> set_rate_limit (rate_limit st) resp)"
  using assms
  by (simp add: client_get_def Let_def run_hooks_response_hooks split: sum.splits)

text \<open>
  Claim C1, as the code has it. The bookkeeping step runs for every response with a 2xx
  status: after the exchange the tracker is the one that \<^verbatim>\<open>set_rate_limit\<close> gives for the
  response. For a response with any other status the status check raises its
  \<^verbatim>\<open>HTTPException\<close> first, \<^verbatim>\<open>set_rate_limit\<close> does not run, and the tracker is as it was
  before the exchange.
\<close>

theorem tracker_after_response:
  assumes "replies w (length (sent st)) = Received resp"
  shows "(is_success (status_code resp) \<longrightarrow>
            fst (client_get w st request) = Inr resp
            \<and> rate_limit (snd (client_get w st request)) = set_rate_limit (rate_limit st) resp)
         \<and> (\<not> is_success (status_code resp) \<longrightarrow>
              (\<exists>c d. fst (client_get w st request) = Inl (HTTPException c d))
              \<and> rate_limit (snd (client_get w st request)) = rate_limit st)"
proof (cases "is_success (status_code resp)")
  case True
  then show ?thesis
    using client_get_received [OF assms, of request] by (simp add: status_errors_success)
next
  case False
  from status_errors_failure [OF this] obtain c d
    where "status_errors resp = Inl (HTTPException c d)" by blast
  with False show ?thesis
    using client_get_received [OF assms, of request] by simp
qed

text \<open>
  Claim C1, as the code has it, for a page with status 200 and rate-limit headers, whose
  state the tracker takes over, and for the quota-exceeded response, which leaves the
  tracker empty.
\<close>

theorem tracker_after_response_witness:
  "limits (rate_limit (snd (client_get
             (scripted [Received (response_of 200
                [(''x-rate-limit-remaining'', ''14''), (''x-rate-limit-reset'', ''1700000000'')]
                None)])
             new_client (GET followers_url []))))
     (followers_url, ''GET'')
     = Some \<lparr>remaining = 14, reset = 1700000000\<rparr>
   \<and> rate_limit (snd (client_get (scripted [Received quota_response]) new_client
                          (GET followers_url [])))
       = new_tracker"
  using
    tracker_after_response [of
      "scripted [Received (response_of 200
         [(''x-rate-limit-remaining'', ''14''), (''x-rate-limit-reset'', ''1700000000'')]
         None)]"
      new_client
      "response_of 200
         [(''x-rate-limit-remaining'', ''14''), (''x-rate-limit-reset'', ''1700000000'')]
         None"
      "GET followers_url []"]
    tracker_after_response [of "scripted [Received quota_response]" new_client
      quota_response "GET followers_url []"]
  by (simp add: scripted_def new_client_def new_tracker_def quota_response_def
        response_of_def is_success_def set_rate_limit_def set_limit_def
        read_limit_headers_def parse_nat_def digit_of_def limit_key_def followers_url_def
        numeral_eq_enat)

text \<open>
  Claim C1 as the spec states it fails on the quota-exceeded response: the exchange
  raises \<^verbatim>\<open>HTTPException(429)\<close> and the tracker has no state for the key of the
  response, while \<^verbatim>\<open>set_rate_limit\<close> on this response would have recorded that no call
  remains.
\<close>

theorem quota_response_skips_set_rate_limit:
  "fst (client_get (scripted [Received quota_response]) new_client (GET followers_url []))
     = Inl (HTTPException 429 (DetailSet {PInt 429, PStr ''0''}))
   \<and> limits (rate_limit (snd (client_get (scripted [Received quota_response]) new_client
                                  (GET followers_url []))))
        (followers_url, ''GET'') = None
   \<and> limits (set_rate_limit (rate_limit new_client) quota_response) (followers_url, ''GET'')
       = Some \<lparr>remaining = 0, reset = 1700000000\<rparr>
   \<and> rate_limit (snd (client_get (scripted [Received quota_response]) new_client
                          (GET followers_url [])))
       \<noteq> set_rate_limit (rate_limit new_client) quota_response"
proof -
  have a: "fst (client_get (scripted [Received quota_response]) new_client
                  (GET followers_url []))
             = Inl (HTTPException 429 (DetailSet {PInt 429, PStr ''0''}))"
    and b: "limits (rate_limit (snd (client_get (scripted [Received quota_response])
                                       new_client (GET followers_url []))))
              (followers_url, ''GET'') = None"
    by (simp_all add: client_get_def scripted_def new_client_def new_tracker_def
          quota_response_def response_of_def response_hooks_def status_errors_def
          header_value_def is_success_def Let_def)
  have c: "limits (set_rate_limit (rate_limit new_client) quota_response)
             (followers_url, ''GET'') = Some \<lparr>remaining = 0, reset = 1700000000\<rparr>"
    by (simp add: new_client_def new_tracker_def quota_response_def response_of_def
          set_rate_limit_def set_limit_def read_limit_headers_def parse_nat_def
          digit_of_def limit_key_def zero_enat_def)
  from b c have "rate_limit (snd (client_get (scripted [Received quota_response]) new_client
                          (GET followers_url [])))
       \<noteq> set_rate_limit (rate_limit new_client) quota_response"
    by auto
  with a b c show ?thesis by blast
qed

section \<open>Decoding failures\<close>

lemma process_json_decode_failure:
  "json_body r = None \<Longrightarrow>
     process_json r = Inl (HTTPException (status_code r) (DetailExc JSONDecodeError))"
  by (simp add: process_json_def process_json_try_def)

lemma process_json_no_data:
  assumes "json_body r = Some (JObj kvs)" and "map_of kvs ''data'' = None"
      and "map_of kvs ''meta'' = None"
  shows "process_json r = Inl (Raised (KeyError (PStr ''data'')))"
  using assms by (simp add: process_json_def process_json_try_def)

text \<open>
  Claim C2 at a response with status 200 whose body decodes to an object with
  \<^verbatim>\<open>meta\<close> and without \<^verbatim>\<open>data\<close>: \<^verbatim>\<open>process_json\<close> raises \<^verbatim>\<open>KeyError('data')\<close>, which
  is not an \<^verbatim>\<open>HTTPException\<close>. A body that does not decode gives the
  \<^verbatim>\<open>HTTPException\<close> with the status of the response.
\<close>

theorem process_json_missing_data_KeyError:
  "process_json no_data_response = Inl (Raised (KeyError (PStr ''data'')))
   \<and> \<not> typed (Raised (KeyError (PStr ''data'')))
   \<and> process_json (response_of 200 [] None)
       = Inl (HTTPException 200 (DetailExc JSONDecodeError))"
  by (simp add: process_json_def process_json_try_def no_data_response_def response_of_def)

section \<open>Pagination\<close>

lemma sent_client_get: "sent (snd (client_get w st request)) = sent st @ [request]"
  by (simp add: client_get_def Let_def split: reply.splits prod.splits option.splits)

lemma sent_get_page: "sent (snd (get_page w st request)) = sent st @ [request]"
proof -
  obtain res st' where c: "client_get w st request = (res, st')"
    by (cases "client_get w st request")
  then have "sent st' = sent st @ [request]"
    using sent_client_get [of w st request] by simp
  with c show ?thesis
    by (simp add: get_page_def split: sum.splits error.splits exc.splits)
qed

lemma client_get_success:
  assumes "replies w (length (sent st)) = Received r" and "is_success (status_code r)"
  shows "fst (client_get w st request) = Inr r"
  using client_get_received [OF assms(1), of request] assms(2)
  by (simp add: status_errors_success)

lemma process_json_page:
  assumes "carries_page r items tok" and "tok \<noteq> Some []"
  shows "process_json r = Inr (token_value tok, JArr items)"
proof -
  from assms(1) obtain kvs where b: "json_body r = Some (JObj kvs)"
    by (auto simp: carries_page_def split: option.splits json.splits)
  with assms(1) have d: "map_of kvs ''data'' = Some (JArr items)"
    by (simp add: carries_page_def)
  show ?thesis
  proof (cases tok)
    case None
    with assms(1) b consider "map_of kvs ''meta'' = None"
      | m where "map_of kvs ''meta'' = Some (JObj m)" and "map_of m ''next_token'' = None"
      by (auto simp: carries_page_def split: option.splits json.splits)
    then show ?thesis
      by cases (simp_all add: process_json_def process_json_try_def b d token_value_def None)
  next
    case (Some t)
    with assms(1) b obtain m where "map_of kvs ''meta'' = Some (JObj m)"
      and "map_of m ''next_token'' = Some (JStr t)"
      by (auto simp: carries_page_def split: option.splits json.splits)
    moreover have "t \<noteq> []" using assms(2) Some by simp
    ultimately show ?thesis
      by (simp add: process_json_def process_json_try_def b d token_value_def Some)
  qed
qed

lemma get_page_page:
  assumes "replies w (length (sent st)) = Received r"
      and "carries_page r items tok" and "tok \<noteq> Some []"
  shows "fst (get_page w st request) = Inr (token_value tok, JArr items)"
proof -
  have s: "is_success (status_code r)" using assms(2) by (simp add: carries_page_def)
  obtain res st' where c: "client_get w st request = (res, st')"
    by (cases "client_get w st request")
  then have "res = Inr r" using client_get_success [OF assms(1) s, of request] by simp
  with c show ?thesis
    by (simp add: get_page_def process_json_page [OF assms(2,3)])
qed

lemma get_page_serves:
  assumes "serves w (length (sent st)) ((items, tok) # ps)" and "tok \<noteq> Some []"
  shows "\<exists>st'. get_page w st request = (Inr (token_value tok, JArr items), st')
           \<and> sent st' = sent st @ [request] \<and> serves w (length (sent st')) ps"
proof -
  from assms(1) obtain r where r: "replies w (length (sent st)) = Received r"
    and c: "carries_page r items tok" and s: "serves w (Suc (length (sent st))) ps"
    by (auto split: reply.splits)
  obtain res st' where g: "get_page w st request = (res, st')"
    by (cases "get_page w st request")
  have "res = Inr (token_value tok, JArr items)"
    using get_page_page [OF r c assms(2), of request] g by simp
  moreover have "sent st' = sent st @ [request]"
    using sent_get_page [of w st request] g by simp
  ultimately show ?thesis using g s by simp
qed

text \<open>
  The loop, entered with the token \<open>t\<close> and the records \<open>acc\<close> gathered so far, when the
  transport serves the remaining pages.
\<close>

lemma get_data_loop_pages:
  assumes "length datas = Suc (length toks)"
      and "serves w (length (sent st)) (zip datas (map Some toks @ [None]))"
      and "[] \<notin> set toks" and "t \<noteq> []"
  shows "\<exists>st'. get_data_loop w u (JStr t) acc st = Some (Inr (JArr (acc @ concat datas)), st')
           \<and> sent st' =
               sent st @ map (\<lambda>x. GET u [(''pagination_token'', JStr x)]) (t # toks)"
  using assms
proof (induction toks arbitrary: datas st t acc)
  case Nil
  then obtain d where d: "datas = [d]" by (cases datas) auto
  with Nil have "serves w (length (sent st)) ((d, None) # [])" by simp
  from get_page_serves [OF this, of "GET u [(''pagination_token'', JStr t)]"]
  obtain st' where
    g: "get_page w st (GET u [(''pagination_token'', JStr t)]) = (Inr (JNull, JArr d), st')"
    and s: "sent st' = sent st @ [GET u [(''pagination_token'', JStr t)]]"
    by (auto simp: token_value_def)
  show ?case
    using Nil(4) g s d
    by (subst get_data_loop.simps) (simp add: get_data_loop.simps)
next
  case (Cons t' toks)
  then obtain d ds where d: "datas = d # ds" and l: "length ds = Suc (length toks)"
    by (cases datas) auto
  from Cons(3) d
  have sv: "serves w (length (sent st)) ((d, Some t') # zip ds (map Some toks @ [None]))"
    by simp
  from Cons(4) have t': "t' \<noteq> []" and nt: "[] \<notin> set toks" by auto
  have "Some t' \<noteq> Some []" using t' by simp
  from get_page_serves [OF sv this, of "GET u [(''pagination_token'', JStr t)]"]
  obtain st' where
    g: "get_page w st (GET u [(''pagination_token'', JStr t)]) = (Inr (JStr t', JArr d), st')"
    and s: "sent st' = sent st @ [GET u [(''pagination_token'', JStr t)]]"
    and sv': "serves w (length (sent st')) (zip ds (map Some toks @ [None]))"
    by (auto simp: token_value_def)
  from Cons.IH [OF l sv' nt t', of "acc @ d"]
  obtain st'' where
    r: "get_data_loop w u (JStr t') (acc @ d) st' = Some (Inr (JArr ((acc @ d) @ concat ds)), st'')"
    and s': "sent st'' =
               sent st' @ map (\<lambda>x. GET u [(''pagination_token'', JStr x)]) (t' # toks)"
    by blast
  show ?case
    using Cons(5) g r s s' d
    by (subst get_data_loop.simps) simp
qed

text \<open>
  Claim C3. When the transport serves \<open>N\<close> well-formed pages with the records \<open>datas\<close>,
  the first \<open>N - 1\<close> of them with the tokens \<open>toks\<close> (non-empty strings) and the last one
  without a token, \<^verbatim>\<open>get_data\<close> returns: its result is the concatenation of the records
  in page order, it issues exactly \<open>N\<close> requests, the first without parameters and the
  request after the page with token \<open>t\<close> with \<open>t\<close> as \<^verbatim>\<open>pagination_token\<close>.
\<close>

theorem get_data_pagination:
  assumes "length datas = Suc (length toks)"
      and "serves w (length (sent st)) (zip datas (map Some toks @ [None]))"
      and "[] \<notin> set toks"
  shows "\<exists>st'. get_data w st item_id u = Some (Inr (JArr (concat datas)), st')
           \<and> sent st' =
               sent st @ GET u [] # map (\<lambda>t. GET u [(''pagination_token'', JStr t)]) toks
           \<and> length (sent st') = length (sent st) + length datas"
proof (cases toks)
  case Nil
  with assms(1) obtain d where d: "datas = [d]" by (cases datas) auto
  with Nil assms(2) have "serves w (length (sent st)) ((d, None) # [])" by simp
  from get_page_serves [OF this, of "GET u []"]
  obtain st' where g: "get_page w st (GET u []) = (Inr (JNull, JArr d), st')"
    and s: "sent st' = sent st @ [GET u []]"
    by (auto simp: token_value_def)
  then show ?thesis using Nil d by (simp add: get_data_def)
next
  case (Cons t ts)
  with assms(1) obtain d ds where d: "datas = d # ds" and l: "length ds = Suc (length ts)"
    by (cases datas) auto
  from assms(2) d Cons
  have sv: "serves w (length (sent st)) ((d, Some t) # zip ds (map Some ts @ [None]))"
    by simp
  from assms(3) Cons have t: "t \<noteq> []" and nt: "[] \<notin> set ts" by auto
  have "Some t \<noteq> Some []" using t by simp
  from get_page_serves [OF sv this, of "GET u []"]
  obtain st' where g: "get_page w st (GET u []) = (Inr (JStr t, JArr d), st')"
    and s: "sent st' = sent st @ [GET u []]"
    and sv': "serves w (length (sent st')) (zip ds (map Some ts @ [None]))"
    by (auto simp: token_value_def)
  from get_data_loop_pages [OF l sv' nt t, of u d]
  obtain st'' where
    r: "get_data_loop w u (JStr t) d st' = Some (Inr (JArr (d @ concat ds)), st'')"
    and s': "sent st'' =
               sent st' @ map (\<lambda>x. GET u [(''pagination_token'', JStr x)]) (t # ts)"
    by blast
  show ?thesis
    using t g r s s' d Cons l by (simp add: get_data_def)
qed

text \<open>
  Claim C3 on the pages \<open>P1\<close> (token \<open>a\<close>), \<open>P2\<close> (token \<open>b\<close>), \<open>P3\<close> (no token): three
  requests, the second and third with the tokens \<open>a\<close> and \<open>b\<close>, and the records of the
  three pages in order.
\<close>

theorem get_data_pagination_witness:
  "serves three_pages (length (sent new_client))
     (zip [[JInt 1, JInt 2], [JInt 3], [JInt 4, JInt 5]] (map Some [''a'', ''b''] @ [None]))
   \<and> (\<exists>st'. get_data three_pages new_client 7 followers_url
               = Some (Inr (JArr [JInt 1, JInt 2, JInt 3, JInt 4, JInt 5]), st')
             \<and> sent st' =
                 [GET followers_url [],
                  GET followers_url [(''pagination_token'', JStr ''a'')],
                  GET followers_url [(''pagination_token'', JStr ''b'')]])"
proof -
  have l: "length [[JInt 1, JInt 2], [JInt 3], [JInt 4, JInt 5]] = Suc (length [''a'', ''b''])"
    by simp
  have s: "serves three_pages (length (sent new_client))
     (zip [[JInt 1, JInt 2], [JInt 3], [JInt 4, JInt 5]] (map Some [''a'', ''b''] @ [None]))"
    by (simp add: three_pages_def scripted_def new_client_def page_response_def
          response_of_def carries_page_def is_success_def)
  have n: "[] \<notin> set [''a'', ''b'']" by simp
  from get_data_pagination [OF l s n, of 7 followers_url]
  have "\<exists>st'. get_data three_pages new_client 7 followers_url
               = Some (Inr (JArr [JInt 1, JInt 2, JInt 3, JInt 4, JInt 5]), st')
             \<and> sent st' =
                 [GET followers_url [],
                  GET followers_url [(''pagination_token'', JStr ''a'')],
                  GET followers_url [(''pagination_token'', JStr ''b'')]]"
    by (auto simp: new_client_def)
  with s show ?thesis by blast
qed

section \<open>Failures during pagination\<close>

lemma client_get_Inr:
  assumes "client_get w st request = (Inr r, st')"
  shows "replies w (length (sent st)) = Received r \<and> is_success (status_code r)"
  using assms
  by (auto simp: client_get_def Let_def run_hooks_response_hooks status_errors_def
           split: reply.splits sum.splits if_splits)

lemma get_page_Inr:
  assumes "get_page w st request = (Inr x, st')"
  shows "page_ok (replies w (length (sent st)))"
proof -
  obtain res st1 where c: "client_get w st request = (res, st1)"
    by (cases "client_get w st request")
  with assms obtain r where r: "res = Inr r" and p: "process_json r = Inr x"
    by (auto simp: get_page_def split: sum.splits error.splits exc.splits)
  from client_get_Inr [OF c [unfolded r]] p show ?thesis
    by (simp add: page_ok_def)
qed

lemma get_data_loop_all_pages_ok:
  assumes "get_data_loop w u p acc st = Some y"
  shows "\<forall>v. fst y = Inr v \<longrightarrow>
           length (sent st) \<le> length (sent (snd y)) \<and>
           (\<forall>k. length (sent st) \<le> k \<and> k < length (sent (snd y))
                 \<longrightarrow> page_ok (replies w k))"
  using assms
proof (induction w u p acc st y rule: get_data_loop.raw_induct [rotated 1, consumes 1])
  case (1 loop w u p acc st y)
  show ?case
  proof (intro allI impI)
    fix v assume v: "fst y = Inr v"
    show "length (sent st) \<le> length (sent (snd y)) \<and>
          (\<forall>k. length (sent st) \<le> k \<and> k < length (sent (snd y))
                \<longrightarrow> page_ok (replies w k))"
    proof (cases "truthy p")
      case False
      with 1(2) show ?thesis by auto
    next
      case True
      let ?rq = "GET u [(''pagination_token'', p)]"
      obtain res st1 where g: "get_page w st ?rq = (res, st1)"
        by (cases "get_page w st ?rq")
      with 1(2) True v obtain p' d acc' where r: "res = Inr (p', d)"
        and e: "list_extend acc d = Inr acc'" and l: "loop w u p' acc' st1 = Some y"
        by (auto split: sum.splits prod.splits)
      have s: "sent st1 = sent st @ [?rq]" using sent_get_page [of w st ?rq] g by simp
      have ok: "page_ok (replies w (length (sent st)))" using get_page_Inr g r by blast
      from 1(1) [OF l] v have ih: "length (sent st1) \<le> length (sent (snd y))"
        "\<forall>k. length (sent st1) \<le> k \<and> k < length (sent (snd y))
              \<longrightarrow> page_ok (replies w k)"
        by blast+
      show ?thesis
      proof (intro conjI allI impI)
        show "length (sent st) \<le> length (sent (snd y))" using ih(1) s by simp
      next
        fix k assume k: "length (sent st) \<le> k \<and> k < length (sent (snd y))"
        show "page_ok (replies w k)"
        proof (cases "k = length (sent st)")
          case True
          then show ?thesis using ok by simp
        next
          case False
          with k s have "length (sent st1) \<le> k \<and> k < length (sent (snd y))" by simp
          then show ?thesis using ih(2) by blast
        qed
      qed
    qed
  qed
qed

text \<open>
  No partial result: when \<^verbatim>\<open>get_data\<close> returns data, every request it issued was
  answered by a response with a 2xx status that \<^verbatim>\<open>process_json\<close> decoded. So a failure
  of any page request makes the whole call end in an exception.
\<close>

lemma get_data_all_pages_ok:
  assumes "get_data w st item_id u = Some (Inr v, st')"
  shows "\<forall>k. length (sent st) \<le> k \<and> k < length (sent st') \<longrightarrow> page_ok (replies w k)"
proof -
  let ?rq = "GET u []"
  obtain res st1 where g: "get_page w st ?rq = (res, st1)" by (cases "get_page w st ?rq")
  with assms obtain p d where r: "res = Inr (p, d)"
    by (auto simp: get_data_def split: sum.splits prod.splits)
  have s: "sent st1 = sent st @ [?rq]" using sent_get_page [of w st ?rq] g by simp
  have ok: "page_ok (replies w (length (sent st)))" using get_page_Inr g r by blast
  show ?thesis
  proof (cases "truthy p")
    case False
    with assms g r have "st' = st1" by (simp add: get_data_def)
    with s ok show ?thesis by (auto simp: less_Suc_eq)
  next
    case True
    with assms g r obtain acc where "get_data_loop w u p acc st1 = Some (Inr v, st')"
      by (auto simp: get_data_def split: sum.splits)
    from get_data_loop_all_pages_ok [OF this]
    have "\<forall>k. length (sent st1) \<le> k \<and> k < length (sent st') \<longrightarrow> page_ok (replies w k)"
      by simp
    with s ok show ?thesis
      by (metis Suc_leI le_neq_implies_less length_append_singleton)
  qed
qed

text \<open>
  Claim C7 on a run whose second page has no \<^verbatim>\<open>data\<close>: \<^verbatim>\<open>get_data\<close> returns no data,
  and what it raises is \<^verbatim>\<open>KeyError('data')\<close>, not an \<^verbatim>\<open>HTTPException\<close>.
\<close>

theorem get_data_second_page_KeyError:
  "map_option fst (get_data broken_second_page new_client 7 followers_url)
     = Some (Inl (Raised (KeyError (PStr ''data''))))
   \<and> \<not> typed (Raised (KeyError (PStr ''data'')))"
  apply (simp add: get_data_def get_page_def client_get_def scripted_def
        broken_second_page_def no_data_response_def
        new_client_def new_tracker_def page_response_def response_of_def response_hooks_def
        status_errors_def is_success_def process_json_def process_json_try_def Let_def
        set_rate_limit_def set_limit_def read_limit_headers_def)
  apply (subst get_data_loop.simps)
  apply (simp add: get_page_def client_get_def
        response_hooks_def status_errors_def is_success_def process_json_def
        process_json_try_def Let_def
        set_rate_limit_def set_limit_def read_limit_headers_def GET_def)
  done

text \<open>
  Claim C10. Two calls of \<^verbatim>\<open>get_data\<close> with the same URL, in the same state and with
  the same replies, that differ in \<open>item_id\<close> have the same outcome: the same result or
  exception, the same requests, sleeps and tracker.
\<close>

theorem get_data_ignores_item_id:
  "get_data w st item_id u = get_data w st item_id' u"
  by (simp add: get_data_def)

section \<open>The id lookup\<close>

lemma sent_get_id_body:
  "sent (snd (get_id_body w st user user_fields))
     = sent st @ [GET (api @ url_id user user_fields) []]"
proof -
  obtain res st' where g: "get_page w st (GET (api @ url_id user user_fields) []) = (res, st')"
    by (cases "get_page w st (GET (api @ url_id user user_fields) [])")
  then have "sent st' = sent st @ [GET (api @ url_id user user_fields) []]"
    using sent_get_page [of w st "GET (api @ url_id user user_fields) []"] by simp
  with g show ?thesis
    by (simp add: get_id_body_def split: sum.splits prod.splits)
qed

lemma map_of_take_mono:
  "m \<le> m' \<Longrightarrow> map_of (take m xs) k = Some v \<Longrightarrow> map_of (take m' xs) k = Some v"
proof (induction xs arbitrary: m m')
  case Nil
  then show ?case by simp
next
  case (Cons x xs)
  from Cons.prems(2) obtain n where m: "m = Suc n" by (cases m) auto
  with Cons.prems(1) obtain n' where m': "m' = Suc n'" and le: "n \<le> n'" by (cases m') auto
  show ?case
  proof (cases "fst x = k")
    case True
    with Cons.prems(2) m m' show ?thesis by (cases x) auto
  next
    case False
    with Cons.prems(2) m have "map_of (take n xs) k = Some v" by (cases x) auto
    from Cons.IH [OF le this] False m' show ?thesis by (cases x) auto
  qed
qed

lemma map_of_take_all: "map_of (take m xs) k = Some v \<Longrightarrow> map_of xs k = Some v"
  using map_of_take_mono [of m "max m (length xs)" xs k v] by simp

lemma map_of_take_filter:
  "k \<noteq> k' \<Longrightarrow> map_of (take m xs) k = Some v
     \<Longrightarrow> map_of (take m (filter (\<lambda>kv. fst kv \<noteq> k') xs)) k = Some v"
proof (induction xs arbitrary: m)
  case Nil
  then show ?case by simp
next
  case (Cons x xs)
  from Cons.prems(2) obtain n where m: "m = Suc n" by (cases m) auto
  show ?case
  proof (cases "fst x = k")
    case True
    with Cons.prems m show ?thesis by (cases x) auto
  next
    case False
    with Cons.prems(2) m have t: "map_of (take n xs) k = Some v" by (cases x) auto
    from Cons.IH [OF Cons.prems(1) t]
    have i: "map_of (take n (filter (\<lambda>kv. fst kv \<noteq> k') xs)) k = Some v" .
    show ?thesis
    proof (cases "fst x = k'")
      case True
      from map_of_take_mono [OF _ i, of "Suc n"] True m show ?thesis by simp
    next
      case f: False
      with i False m show ?thesis by (cases x) auto
    qed
  qed
qed

lemma get_id_hit:
  "map_of cache (call_key c) = Some v \<Longrightarrow>
     get_id w st cache c =
       ((Inr v, st), (call_key c, v) # filter (\<lambda>kv. fst kv \<noteq> call_key c) cache)"
  by (simp add: get_id_def)

lemma get_id_keeps_entry:
  assumes "map_of (take (Suc n) cache) k = Some v" and "Suc n < maxsize"
      and "call_key c \<noteq> k"
  shows "map_of (take (Suc (Suc n)) (snd (get_id w st cache c))) k = Some v"
proof (cases "map_of cache (call_key c)")
  case (Some x)
  from map_of_take_filter [OF assms(3) [symmetric] assms(1)] assms(3) Some
  show ?thesis by (simp add: get_id_def)
next
  case None
  have wide: "map_of (take (Suc (Suc n)) cache) k = Some v"
    using map_of_take_mono [OF _ assms(1), of "Suc (Suc n)"] by simp
  show ?thesis
  proof (cases "bind_args c")
    case (Inl x)
    with None wide show ?thesis by (simp add: get_id_def)
  next
    case (Inr p)
    obtain user user_fields where p: "p = (user, user_fields)" by (cases p)
    obtain res st' where b: "get_id_body w st user user_fields = (res, st')"
      by (cases "get_id_body w st user user_fields")
    show ?thesis
    proof (cases res)
      case (Inl e)
      have "take (Suc (Suc n)) (take (maxsize - 1) cache) = take (min (Suc (Suc n)) (maxsize - 1)) cache"
        by (simp add: min.commute)
      moreover have "Suc n \<le> min (Suc (Suc n)) (maxsize - 1)" using assms(2) by simp
      ultimately have "map_of (take (Suc (Suc n)) (take (maxsize - 1) cache)) k = Some v"
        using map_of_take_mono [OF _ assms(1), of "min (Suc (Suc n)) (maxsize - 1)"] by simp
      with None Inr p b Inl show ?thesis by (simp add: get_id_def)
    next
      case r: (Inr x)
      have "min (Suc (Suc n)) maxsize = Suc (Suc n)" using assms(2) by simp
      then have "take (Suc (Suc n)) (take maxsize ((call_key c, x) # cache))
                   = (call_key c, x) # take (Suc n) cache"
        by (simp add: min.commute)
      with None Inr p b r assms(1,3) show ?thesis by (simp add: get_id_def)
    qed
  qed
qed

lemma get_id_calls_keep_entry:
  assumes "map_of (take (Suc n) cache) k = Some v" and "n + length ds < maxsize"
      and "\<forall>d \<in> set ds. call_key d \<noteq> k"
  shows "map_of (take (Suc (n + length ds)) (snd (get_id_calls w st cache ds))) k = Some v"
  using assms
proof (induction ds arbitrary: n cache st)
  case Nil
  then show ?case by simp
next
  case (Cons d ds)
  obtain r st' cache' where g: "get_id w st cache d = ((r, st'), cache')"
    by (cases "get_id w st cache d") auto
  have "map_of (take (Suc (Suc n)) cache') k = Some v"
    using get_id_keeps_entry [OF Cons.prems(1), of d w st] Cons.prems(2,3) g by simp
  from Cons.IH [OF this, of st'] Cons.prems(2,3) g show ?case by simp
qed

lemma get_id_cache_bounded:
  assumes "length cache \<le> maxsize"
  shows "length (snd (get_id w st cache c)) \<le> maxsize"
proof (cases "map_of cache (call_key c)")
  case None
  with assms show ?thesis
    by (auto simp: get_id_def split: sum.splits prod.splits)
next
  case (Some v)
  have "(call_key c, v) \<in> set cache" using Some by (rule map_of_SomeD)
  then have "length (filter (\<lambda>kv. fst kv \<noteq> call_key c) cache) < length cache"
    by (intro length_filter_less [of "(call_key c, v)"]) auto
  with assms Some show ?thesis by (simp add: get_id_def)
qed

lemma get_id_calls_cache_bounded:
  "length cache \<le> maxsize \<Longrightarrow> length (snd (get_id_calls w st cache ds)) \<le> maxsize"
proof (induction ds arbitrary: cache st)
  case Nil
  then show ?case by simp
next
  case (Cons d ds)
  obtain r st' cache' where g: "get_id w st cache d = ((r, st'), cache')"
    by (cases "get_id w st cache d") auto
  then have "length cache' \<le> maxsize"
    using get_id_cache_bounded [OF Cons.prems, of w st d] by simp
  from Cons.IH [OF this, of st'] g show ?case by simp
qed

text \<open>
  When the table is full, a call that misses and returns drops the least recently used
  entry.
\<close>

lemma get_id_evicts_least_recent:
  assumes "length cache = maxsize" and "map_of cache (call_key c) = None"
      and "get_id w st cache c = ((Inr v, st1), cache1)"
  shows "cache1 = (call_key c, v) # butlast cache"
proof -
  from assms(2,3) have "cache1 = take maxsize ((call_key c, v) # cache)"
    by (auto simp: get_id_def split: sum.splits prod.splits)
  with assms(1) show ?thesis by (simp add: maxsize_def butlast_conv_take)
qed

text \<open>
  Claim C8, as the code has it. A first call of the id lookup whose key is not in the
  table, when it returns an id, has issued exactly one request, and the table is then
  the new entry followed by the first 31 of the entries before. A second call written
  in the same form, right after the first or after up to 31 calls in between with other
  keys, returns the same id from the table and issues no request: the state of the
  client stays as it is. The table never holds more than 32 entries.
\<close>

theorem get_id_repeated_call_cached:
  assumes "map_of cache (call_key c) = None"
      and "get_id w st cache c = ((Inr v, st1), cache1)"
      and "\<forall>d \<in> set ds. call_key d \<noteq> call_key c"
      and "length ds < 32"
      and "get_id_calls w st1 cache1 ds = (st2, cache2)"
  shows "(\<exists>user user_fields. bind_args c = Inr (user, user_fields)
            \<and> sent st1 = sent st @ [GET (api @ url_id user user_fields) []])
         \<and> cache1 = take 32 ((call_key c, v) # cache)
         \<and> fst (get_id w st1 cache1 c) = (Inr v, st1)
         \<and> fst (get_id w st2 cache2 c) = (Inr v, st2)
         \<and> length cache2 \<le> 32
         \<and> length (snd (get_id w st2 cache2 c)) \<le> 32"
proof -
  from assms(1,2) obtain user user_fields where bi: "bind_args c = Inr (user, user_fields)"
    by (auto simp: get_id_def split: sum.splits)
  obtain res st' where b: "get_id_body w st user user_fields = (res, st')"
    by (cases "get_id_body w st user user_fields")
  with assms(1,2) bi have r: "res = Inr v" and s: "st' = st1"
    and c: "cache1 = take maxsize ((call_key c, v) # cache)"
    by (auto simp: get_id_def split: sum.splits)
  have one: "sent st1 = sent st @ [GET (api @ url_id user user_fields) []]"
    using sent_get_id_body [of w st user user_fields] b s by simp
  have front: "map_of (take (Suc 0) cache1) (call_key c) = Some v"
    using c by (simp add: maxsize_def)
  have l1: "length cache1 \<le> maxsize" using c by simp
  have h1: "map_of cache1 (call_key c) = Some v" using front by (rule map_of_take_all)
  have "map_of (take (Suc (0 + length ds)) (snd (get_id_calls w st1 cache1 ds))) (call_key c)
          = Some v"
    using get_id_calls_keep_entry [OF front _ assms(3), of w st1] assms(4)
    by (simp add: maxsize_def)
  then have h2: "map_of cache2 (call_key c) = Some v"
    using assms(5) map_of_take_all by fastforce
  have l2: "length cache2 \<le> maxsize"
    using get_id_calls_cache_bounded [OF l1, of w st1 ds] assms(5) by simp
  have l3: "length (snd (get_id w st2 cache2 c)) \<le> maxsize"
    using get_id_cache_bounded [OF l2] .
  show ?thesis
    using bi one c get_id_hit [OF h1, of w st1] get_id_hit [OF h2, of w st2] l2 l3
    by (simp add: maxsize_def)
qed

text \<open>
  Claim C8, as the code has it, on a client just constructed: \<^verbatim>\<open>get_id("TwitterDev")\<close>
  sends one request; repeated at once, and repeated after \<^verbatim>\<open>get_id("TwitterAPI")\<close>, it
  returns the same id and sends nothing.
\<close>

theorem get_id_repeated_call_cached_witness:
  "map_of ([] :: id_cache) (call_key call_positional) = None
   \<and> get_id two_id_responses new_client [] call_positional
       = ((Inr (JStr ''2244994945''), new_client\<lparr>sent := [id_request]\<rparr>),
          [(call_key call_positional, JStr ''2244994945'')])
   \<and> get_id_calls two_id_responses (new_client\<lparr>sent := [id_request]\<rparr>)
         [(call_key call_positional, JStr ''2244994945'')] [call_other]
       = (new_client\<lparr>sent := [id_request,
                                GET (api @ url_id ''TwitterAPI'' ''user.fields=id'') []]\<rparr>,
          [(call_key call_other, JStr ''2244994945''),
           (call_key call_positional, JStr ''2244994945'')])
   \<and> fst (get_id two_id_responses (new_client\<lparr>sent := [id_request]\<rparr>)
            [(call_key call_positional, JStr ''2244994945'')] call_positional)
       = (Inr (JStr ''2244994945''), new_client\<lparr>sent := [id_request]\<rparr>)
   \<and> fst (get_id two_id_responses
            (new_client\<lparr>sent := [id_request,
                                   GET (api @ url_id ''TwitterAPI'' ''user.fields=id'') []]\<rparr>)
            [(call_key call_other, JStr ''2244994945''),
             (call_key call_positional, JStr ''2244994945'')] call_positional)
       = (Inr (JStr ''2244994945''),
          new_client\<lparr>sent := [id_request,
                                 GET (api @ url_id ''TwitterAPI'' ''user.fields=id'') []]\<rparr>)"
proof -
  have m: "map_of ([] :: id_cache) (call_key call_positional) = None" by simp
  have g: "get_id two_id_responses new_client [] call_positional
       = ((Inr (JStr ''2244994945''), new_client\<lparr>sent := [id_request]\<rparr>),
          [(call_key call_positional, JStr ''2244994945'')])"
    by (simp add: get_id_def get_id_body_def get_page_def client_get_def scripted_def
        two_id_responses_def call_positional_def call_key_def bind_args_def id_request_def
        new_client_def new_tracker_def id_response_def page_response_def response_of_def
        response_hooks_def status_errors_def is_success_def process_json_def
        process_json_try_def Let_def set_rate_limit_def set_limit_def
        read_limit_headers_def maxsize_def check_rate_limit_def get_limit_def)
  have d: "\<forall>d \<in> set [call_other]. call_key d \<noteq> call_key call_positional"
    by (simp add: call_other_def call_positional_def call_key_def)
  have l: "length [call_other] < 32" by simp
  have cs: "get_id_calls two_id_responses (new_client\<lparr>sent := [id_request]\<rparr>)
         [(call_key call_positional, JStr ''2244994945'')] [call_other]
       = (new_client\<lparr>sent := [id_request,
                                GET (api @ url_id ''TwitterAPI'' ''user.fields=id'') []]\<rparr>,
          [(call_key call_other, JStr ''2244994945''),
           (call_key call_positional, JStr ''2244994945'')])"
    by (simp add: get_id_def get_id_body_def get_page_def client_get_def scripted_def
        two_id_responses_def call_positional_def call_other_def call_key_def bind_args_def
        id_request_def
        new_client_def new_tracker_def id_response_def page_response_def response_of_def
        response_hooks_def status_errors_def is_success_def process_json_def
        process_json_try_def Let_def set_rate_limit_def set_limit_def
        read_limit_headers_def maxsize_def check_rate_limit_def get_limit_def)
  from get_id_repeated_call_cached [OF m g d l cs] m g cs show ?thesis by simp
qed

text \<open>
  Claim C8 as the spec states it fails on two inputs. \<^verbatim>\<open>get_id("TwitterDev")\<close> and then
  \<^verbatim>\<open>get_id(user="TwitterDev")\<close> give \<^verbatim>\<open>user\<close> and \<^verbatim>\<open>fields\<close> the same values and issue
  two requests, since the key of the table is the form of the call. And a first call
  that raises (here the transport fails) leaves no entry, so the same call made again
  issues a second request.
\<close>

theorem get_id_same_values_two_requests:
  "bind_args call_positional = Inr (''TwitterDev'', ''user.fields=id'')
   \<and> bind_args call_keyword = Inr (''TwitterDev'', ''user.fields=id'')
   \<and> get_id two_id_responses new_client [] call_positional
       = ((Inr (JStr ''2244994945''), new_client\<lparr>sent := [id_request]\<rparr>),
          [(call_key call_positional, JStr ''2244994945'')])
   \<and> fst (get_id two_id_responses (new_client\<lparr>sent := [id_request]\<rparr>)
            [(call_key call_positional, JStr ''2244994945'')] call_keyword)
       = (Inr (JStr ''2244994945''), new_client\<lparr>sent := [id_request, id_request]\<rparr>)
   \<and> get_id failure_then_id new_client [] call_positional
       = ((Inl (HTTPException 503 (DetailExc RequestError)),
           new_client\<lparr>sent := [id_request]\<rparr>), [])
   \<and> fst (get_id failure_then_id (new_client\<lparr>sent := [id_request]\<rparr>) [] call_positional)
       = (Inr (JStr ''2244994945''), new_client\<lparr>sent := [id_request, id_request]\<rparr>)"
  by (simp add: get_id_def get_id_body_def get_page_def client_get_def scripted_def
        two_id_responses_def failure_then_id_def call_positional_def call_keyword_def
        call_key_def bind_args_def id_request_def
        new_client_def new_tracker_def id_response_def page_response_def response_of_def
        response_hooks_def status_errors_def is_success_def process_json_def
        process_json_try_def Let_def set_rate_limit_def set_limit_def
        read_limit_headers_def maxsize_def check_rate_limit_def get_limit_def)

text \<open>
  Claim C9. There is an input on which the id lookup raises an exception that is not an
  \<^verbatim>\<open>HTTPException\<close>: a response with status 200 whose \<^verbatim>\<open>data\<close> is the empty array makes
  \<^verbatim>\<open>result[0]\<close> raise \<^verbatim>\<open>IndexError\<close>.
\<close>

theorem get_id_empty_data_IndexError:
  "fst (fst (get_id (scripted [Received (page_response [] None)]) new_client []
               \<lparr>pos_args = [''nobody'', ''user.fields=id''], kw_args = []\<rparr>))
     = Inl (Raised IndexError)
   \<and> \<not> typed (Raised IndexError)"
  by (simp add: get_id_def bind_args_def call_key_def
        get_id_body_def get_page_def client_get_def scripted_def
        new_client_def new_tracker_def page_response_def response_of_def response_hooks_def
        status_errors_def is_success_def process_json_def process_json_try_def Let_def
        set_rate_limit_def set_limit_def read_limit_headers_def)

section \<open>Hashes of the identity records\<close>

text \<open>
  Claim C6 on two users and two lists with the ids 1 and 2: the records of each pair have
  one and the same hash, although the hashes of their ids differ; whatever the hash of
  the built-in function is, some record's hash is not the hash of its id.
\<close>

theorem hash_not_keyed_on_id:
  "TwitterUser_hash h \<lparr>username = ''a'', user_id = 1, name = ''A''\<rparr>
     = TwitterUser_hash h \<lparr>username = ''b'', user_id = 2, name = ''B''\<rparr>
   \<and> TwitterList_hash h \<lparr>list_name = ''x'', list_id = 1\<rparr>
       = TwitterList_hash h \<lparr>list_name = ''y'', list_id = 2\<rparr>
   \<and> py_hash_int 1 \<noteq> py_hash_int 2
   \<and> (\<exists>u. TwitterUser_hash h u \<noteq> py_hash_int (user_id u))
   \<and> (\<exists>l. TwitterList_hash h l \<noteq> py_hash_int (list_id l))"
proof -
  have a: "py_hash_int 1 = 1" and b: "py_hash_int 2 = 2"
    by (simp_all add: py_hash_int_def)
  have "\<exists>u::TwitterUser. h \<noteq> py_hash_int (user_id u)"
  proof (cases "h = 1")
    case True
    then have "h \<noteq> py_hash_int (user_id \<lparr>username = ''b'', user_id = 2, name = ''B''\<rparr>)"
      using b by simp
    then show ?thesis by blast
  next
    case False
    then have "h \<noteq> py_hash_int (user_id \<lparr>username = ''a'', user_id = 1, name = ''A''\<rparr>)"
      using a by simp
    then show ?thesis by blast
  qed
  moreover have "\<exists>l::TwitterList. h \<noteq> py_hash_int (list_id l)"
  proof (cases "h = 1")
    case True
    then have "h \<noteq> py_hash_int (list_id \<lparr>list_name = ''y'', list_id = 2\<rparr>)"
      using b by simp
    then show ?thesis by blast
  next
    case False
    then have "h \<noteq> py_hash_int (list_id \<lparr>list_name = ''x'', list_id = 1\<rparr>)"
      using a by simp
    then show ?thesis by blast
  qed
  ultimately show ?thesis
    using a b by (simp add: TwitterUser_hash_def TwitterList_hash_def)
qed

end
